theory Spec2Isabelle
  imports Main "HOL-Library.AList" "HOL-Library.Multiset"
begin

text \<open>
  A model of the leaderboard server with the session-based anti-cheat check: the
  handlers \<open>GET /scores\<close>, \<open>POST /session/start\<close>, \<open>POST /session/interact\<close> and
  \<open>POST /scores\<close>, and the periodic sweep of the sessions. The older server file has
  the same listing and submission without sessions, \<open>verified\<close> and \<open>mobile\<close>, and
  with 1000 for the lower bound of the time; it is not modelled apart.
\<close>

section \<open>JavaScript values of the request body\<close>

text \<open>
  The handlers read the fields of \<open>req.body\<close>, which \<open>express.json()\<close> has decoded from
  JSON. A field is absent (\<open>undefined\<close>), \<open>null\<close>, a boolean, a number, a string, or an
  array or object.

  A string is a list of code units below 256 (the characters U+0000 to U+00FF, one
  \<open>char\<close> each); strings with other code units are not represented.

  \<open>JNum\<close> carries a safe integer: an integer-valued number \<open>n\<close> with
  \<open>-2^53 \<le> n \<le> 2^53\<close>. On these \<open>ToString\<close> is the plain decimal numeral and every
  arithmetic result below is exact. Numbers with a fractional part and integers beyond
  that range are not represented.

  \<open>JObj\<close> stands for an array or an object and carries the string that \<open>ToString\<close>
  yields for it, which is all the handlers can observe of such a value (every string is
  the \<open>ToString\<close> of some array).
\<close>

typedef safe_integer = "{n :: int. - (2 ^ 53) \<le> n \<and> n \<le> 2 ^ 53}"
  by (rule exI [of _ 0]) simp

setup_lifting type_definition_safe_integer

lift_definition the_integer :: "safe_integer \<Rightarrow> int" is "\<lambda>n. n" .

text \<open>The safe integer \<open>n\<close>, to write numbers down (\<open>0\<close> outside the range).\<close>

lift_definition safe :: "int \<Rightarrow> safe_integer"
  is "\<lambda>n. if - (2 ^ 53) \<le> n \<and> n \<le> 2 ^ 53 then n else 0"
  by simp

instantiation safe_integer :: equal
begin

lift_definition equal_safe_integer :: "safe_integer \<Rightarrow> safe_integer \<Rightarrow> bool" is "(=)" .

instance
  by standard (transfer, simp)

end

datatype jsval =
    JUndefined
  | JNull
  | JBool bool
  | JNum safe_integer
  | JStr string
  | JObj string

text \<open>A number as arithmetic and \<open>parseInt\<close> produce it: an integer or \<open>NaN\<close>.\<close>

datatype jsnum = Num int | NaN

text \<open>\<open>ToBoolean\<close>, as \<open>!x\<close> and \<open>if (x)\<close> apply it.\<close>

fun truthy :: "jsval \<Rightarrow> bool" where
  "truthy JUndefined = False"
| "truthy JNull = False"
| "truthy (JBool b) = b"
| "truthy (JNum n) = (the_integer n \<noteq> 0)"
| "truthy (JStr s) = (s \<noteq> [])"
| "truthy (JObj s) = True"

subsection \<open>Number to string and back\<close>

definition digit_char :: "nat \<Rightarrow> char" where
  "digit_char d = ''0123456789'' ! d"

fun digits_of :: "nat \<Rightarrow> string" where
  "digits_of n = (if n < 10 then [digit_char n] else digits_of (n div 10) @ [digit_char (n mod 10)])"

declare digits_of.simps [simp del]

text \<open>\<open>Number::toString\<close> of a safe integer: its decimal numeral, with a sign if negative.\<close>

definition number_to_string :: "int \<Rightarrow> string" where
  "number_to_string n = (if n < 0 then CHR ''-'' # digits_of (nat (- n)) else digits_of (nat n))"

text \<open>\<open>String(v)\<close>.\<close>

fun to_string :: "jsval \<Rightarrow> string" where
  "to_string JUndefined = ''undefined''"
| "to_string JNull = ''null''"
| "to_string (JBool b) = (if b then ''true'' else ''false'')"
| "to_string (JNum n) = number_to_string (the_integer n)"
| "to_string (JStr s) = s"
| "to_string (JObj s) = s"

text \<open>
  The white space and line terminators that \<open>trim\<close> and \<open>parseInt\<close> skip, among the
  code units below 256: tab, line feed, vertical tab, form feed, carriage return, space
  and no-break space (U+00A0).
\<close>

definition is_white_space :: "char \<Rightarrow> bool" where
  "is_white_space c =
     (c \<in> set [CHR 0x09, CHR 0x0A, CHR 0x0B, CHR 0x0C, CHR 0x0D, CHR 0x20, CHR 0xA0])"

definition trim :: "string \<Rightarrow> string" where
  "trim s = rev (dropWhile is_white_space (rev (dropWhile is_white_space s)))"

definition digit_values :: "(char \<times> nat) list" where
  "digit_values =
     [(CHR ''0'', 0), (CHR ''1'', 1), (CHR ''2'', 2), (CHR ''3'', 3), (CHR ''4'', 4),
      (CHR ''5'', 5), (CHR ''6'', 6), (CHR ''7'', 7), (CHR ''8'', 8), (CHR ''9'', 9),
      (CHR ''a'', 10), (CHR ''b'', 11), (CHR ''c'', 12), (CHR ''d'', 13), (CHR ''e'', 14),
      (CHR ''f'', 15),
      (CHR ''A'', 10), (CHR ''B'', 11), (CHR ''C'', 12), (CHR ''D'', 13), (CHR ''E'', 14),
      (CHR ''F'', 15)]"

text \<open>The value of \<open>c\<close> as a digit of radix \<open>R\<close>, if it is one.\<close>

definition digit_val :: "nat \<Rightarrow> char \<Rightarrow> nat option" where
  "digit_val R c =
     (case map_of digit_values c of
        None \<Rightarrow> None
      | Some d \<Rightarrow> if d < R then Some d else None)"

text \<open>The digits of the longest prefix of \<open>s\<close> made of radix-\<open>R\<close> digits.\<close>

fun digit_prefix :: "nat \<Rightarrow> string \<Rightarrow> nat list" where
  "digit_prefix R [] = []"
| "digit_prefix R (c # cs) =
     (case digit_val R c of None \<Rightarrow> [] | Some d \<Rightarrow> d # digit_prefix R cs)"

definition radix_value :: "nat \<Rightarrow> nat list \<Rightarrow> nat" where
  "radix_value R ds = foldl (\<lambda>acc d. acc * R + d) 0 ds"

text \<open>
  \<open>parseInt(string)\<close> with no radix argument (ECMAScript, \<open>parseInt\<close>): leading white
  space is skipped, one sign is read, a \<open>0x\<close> or \<open>0X\<close> prefix selects radix 16, otherwise
  the radix is 10; the longest run of digits is the value, and no digit at all gives
  \<open>NaN\<close>. The sign of a zero result is not kept (\<open>-0\<close> and \<open>0\<close> compare alike). The
  result here is the exact integer; the code has the nearest double, which is the same
  number up to \<open>2^53\<close> and beyond that lies, like the exact integer, outside the bounds
  that the submission checks.
\<close>

definition parse_int_string :: "string \<Rightarrow> jsnum" where
  "parse_int_string inputString =
     (let S = dropWhile is_white_space inputString;
          sign = (if S \<noteq> [] \<and> hd S = CHR ''-'' then - 1 else 1 :: int);
          S1 = (if S \<noteq> [] \<and> (hd S = CHR ''+'' \<or> hd S = CHR ''-'') then tl S else S);
          hex = (take 2 S1 = ''0x'' \<or> take 2 S1 = ''0X'');
          R = (if hex then 16 else 10);
          S2 = (if hex then drop 2 S1 else S1);
          Z = digit_prefix R S2
      in if Z = [] then NaN else Num (sign * int (radix_value R Z)))"

text \<open>\<open>parseInt(v)\<close>: the argument is converted to a string first.\<close>

definition parseInt :: "jsval \<Rightarrow> jsnum" where
  "parseInt v = parse_int_string (to_string v)"

text \<open>Comparison of a number with an integer; every comparison with \<open>NaN\<close> is false.\<close>

fun js_lt :: "jsnum \<Rightarrow> int \<Rightarrow> bool" where
  "js_lt (Num a) b = (a < b)"
| "js_lt NaN b = False"

fun js_gt :: "jsnum \<Rightarrow> int \<Rightarrow> bool" where
  "js_gt (Num a) b = (a > b)"
| "js_gt NaN b = False"

fun js_le :: "jsnum \<Rightarrow> int \<Rightarrow> bool" where
  "js_le (Num a) b = (a \<le> b)"
| "js_le NaN b = False"


text \<open>Subtraction of numbers; \<open>NaN\<close> is absorbing.\<close>

fun js_minus :: "jsnum \<Rightarrow> jsnum \<Rightarrow> jsnum" where
  "js_minus (Num a) (Num b) = Num (a - b)"
| "js_minus _ _ = NaN"

section \<open>Data model\<close>

subsection \<open>Score entries\<close>

text \<open>
  A leaderboard entry, as \<open>newScore\<close> builds it. The type of its \<open>time\<close> property is a
  parameter: in memory it is a number, \<open>NaN\<close> or \<open>null\<close>; in a JSON text (the scores file
  and the response) it is a number or \<open>null\<close>, since JSON has no \<open>NaN\<close>.
\<close>

record 't score =
  sid :: string
  name :: string
  cinema :: string
  email :: "string option"
  time :: 't
  date :: string
  verified :: bool
  mobile :: bool

type_synonym memory_score = "jsnum option score"
type_synonym stored_score = "int option score"

text \<open>\<open>JSON.stringify\<close> writes \<open>NaN\<close> as \<open>null\<close>; \<open>JSON.parse\<close> reads back what was written.\<close>

fun stringify_time :: "jsnum option \<Rightarrow> int option" where
  "stringify_time None = None"
| "stringify_time (Some NaN) = None"
| "stringify_time (Some (Num n)) = Some n"

fun parse_time :: "int option \<Rightarrow> jsnum option" where
  "parse_time None = None"
| "parse_time (Some n) = Some (Num n)"

definition json_stringify :: "memory_score \<Rightarrow> stored_score" where
  "json_stringify s =
     \<lparr>sid = sid s, name = name s, cinema = cinema s, email = email s,
      time = stringify_time (time s), date = date s, verified = verified s, mobile = mobile s\<rparr>"

definition json_parse :: "stored_score \<Rightarrow> memory_score" where
  "json_parse s =
     \<lparr>sid = sid s, name = name s, cinema = cinema s, email = email s,
      time = parse_time (time s), date = date s, verified = verified s, mobile = mobile s\<rparr>"

subsection \<open>The scores file\<close>

text \<open>
  What \<open>scores.json\<close> can hold when a handler reads it: nothing readable
  (\<open>readFileSync\<close> throws), a text that is not JSON (\<open>JSON.parse\<close> throws), or a JSON
  value. An array is taken to hold score entries. Writing the file is taken to succeed.
\<close>

datatype document =
    Unreadable
  | NotJson
  | DocNull
  | DocBool bool
  | DocNum int
  | DocStr string
  | DocObject
  | DocArray "stored_score list"

datatype exn = IOError | SyntaxError | TypeError

text \<open>
  \<open>JSON.parse(fs.readFileSync(SCORES_FILE, 'utf8')) || []\<close> followed by the first array
  method called on the result (\<open>sort\<close> in the listing, \<open>push\<close> in the submission): a
  falsy JSON value is replaced by the empty array, and a truthy value that is not an
  array has no such method, so the call throws a \<open>TypeError\<close>. Nothing else happens
  between the read and that call.
\<close>

fun load_scores :: "document \<Rightarrow> exn + memory_score list" where
  "load_scores Unreadable = Inl IOError"
| "load_scores NotJson = Inl SyntaxError"
| "load_scores DocNull = Inr []"
| "load_scores (DocBool b) = (if b then Inl TypeError else Inr [])"
| "load_scores (DocNum n) = (if n \<noteq> 0 then Inl TypeError else Inr [])"
| "load_scores (DocStr s) = (if s \<noteq> [] then Inl TypeError else Inr [])"
| "load_scores DocObject = Inl TypeError"
| "load_scores (DocArray xs) = Inr (map json_parse xs)"

subsection \<open>Game sessions\<close>

record session =
  startTime :: int
  signature :: string
  interactions :: int
  submitted :: bool
  lastInteraction :: "int option"

text \<open>
  \<open>gameSessions\<close> is a \<open>Map\<close> in insertion order; its keys are the token strings that
  \<open>/session/start\<close> stored, so a token of the request that is not a string finds nothing.
\<close>

type_synonym registry = "(string \<times> session) list"

definition sessions_get :: "registry \<Rightarrow> jsval \<Rightarrow> session option" where
  "sessions_get g token = (case token of JStr k \<Rightarrow> map_of g k | _ \<Rightarrow> None)"

definition sessions_delete :: "registry \<Rightarrow> jsval \<Rightarrow> registry" where
  "sessions_delete g token = (case token of JStr k \<Rightarrow> AList.delete k g | _ \<Rightarrow> g)"

text \<open>A write through the session object that \<open>get\<close> returned.\<close>

definition sessions_put :: "registry \<Rightarrow> jsval \<Rightarrow> session \<Rightarrow> registry" where
  "sessions_put g token s = (case token of JStr k \<Rightarrow> AList.update k s g | _ \<Rightarrow> g)"

record state =
  gameSessions :: registry
  scoresFile :: document

section \<open>Operations\<close>

datatype response =
    ScoresListed "stored_score list"
  | SessionStarted string string
  | Interacted bool
  | ScoreSaved int stored_score
  | Failure nat string

subsection \<open>The session sweep\<close>

text \<open>
  The \<open>setInterval\<close> callback: it walks the entries of the map and deletes each one
  older than 30 minutes. \<open>now\<close> is its reading of \<open>Date.now()\<close>.
\<close>

fun sweep_loop :: "int \<Rightarrow> registry \<Rightarrow> registry \<Rightarrow> registry" where
  "sweep_loop now [] g = g"
| "sweep_loop now ((token, session) # rest) g =
     sweep_loop now rest
       (if now - startTime session > 30 * 60 * 1000 then AList.delete token g else g)"

definition sweep :: "int \<Rightarrow> state \<Rightarrow> state" where
  "sweep now st = st\<lparr>gameSessions := sweep_loop now (gameSessions st) (gameSessions st)\<rparr>"

subsection \<open>Sorting by time\<close>

text \<open>\<open>ToNumber\<close> of a \<open>time\<close> property: \<open>null\<close> converts to \<open>0\<close>.\<close>

fun to_number :: "jsnum option \<Rightarrow> jsnum" where
  "to_number None = Num 0"
| "to_number (Some x) = x"

text \<open>The comparator \<open>(a, b) => a.time - b.time\<close>.\<close>

definition by_time :: "memory_score \<Rightarrow> memory_score \<Rightarrow> jsnum" where
  "by_time a b = js_minus (to_number (time a)) (to_number (time b))"

text \<open>\<open>SortCompare\<close>: a comparator result of \<open>NaN\<close> counts as \<open>+0\<close>.\<close>

definition sort_compare :: "('a \<Rightarrow> 'a \<Rightarrow> jsnum) \<Rightarrow> 'a \<Rightarrow> 'a \<Rightarrow> int" where
  "sort_compare comparefn x y = (case comparefn x y of NaN \<Rightarrow> 0 | Num v \<Rightarrow> v)"

text \<open>
  \<open>Array.prototype.sort\<close> is stable. With a consistent comparator its result is the one
  stable arrangement, which this insertion sort computes: each element goes in front of
  the first later element that it does not follow. With an inconsistent comparator
  (a \<open>NaN\<close> time next to two different numbers) ECMAScript leaves the order to the
  implementation. The handlers sort an entry with a \<open>NaN\<close> time only as the last
  element of the array, right after pushing it; every comparison with it counts as equal,
  so the insertion sort leaves it in the last place, behind the other entries in order.
\<close>

fun insert_sorted :: "('a \<Rightarrow> 'a \<Rightarrow> jsnum) \<Rightarrow> 'a \<Rightarrow> 'a list \<Rightarrow> 'a list" where
  "insert_sorted comparefn x [] = [x]"
| "insert_sorted comparefn x (y # ys) =
     (if sort_compare comparefn x y \<le> 0 then x # y # ys
      else y # insert_sorted comparefn x ys)"

definition array_sort :: "('a \<Rightarrow> 'a \<Rightarrow> jsnum) \<Rightarrow> 'a list \<Rightarrow> 'a list" where
  "array_sort comparefn xs = foldr (insert_sorted comparefn) xs []"

text \<open>\<open>findIndex\<close>: the first index whose element satisfies \<open>p\<close>, or \<open>-1\<close>.\<close>

fun findIndex :: "('a \<Rightarrow> bool) \<Rightarrow> 'a list \<Rightarrow> int" where
  "findIndex p [] = - 1"
| "findIndex p (x # xs) =
     (if p x then 0 else (let i = findIndex p xs in if i < 0 then - 1 else i + 1))"

subsection \<open>GET /scores\<close>

definition get_scores :: "state \<Rightarrow> response \<times> state" where
  "get_scores st =
     (case load_scores (scoresFile st) of
        Inl e \<Rightarrow> (Failure 500 ''Failed to load scores'', st)
      | Inr scores \<Rightarrow>
          (ScoresListed (map json_stringify (take 50 (array_sort by_time scores))), st))"

subsection \<open>POST /session/start and POST /session/interact\<close>

text \<open>
  The random token, the clock reading and the HMAC signature are inputs of the model.
\<close>

definition session_start :: "string \<Rightarrow> int \<Rightarrow> string \<Rightarrow> state \<Rightarrow> response \<times> state" where
  "session_start token now sig st =
     (SessionStarted token (take 16 sig),
      st\<lparr>gameSessions :=
           AList.update token
             \<lparr>startTime = now, signature = sig, interactions = 0, submitted = False,
              lastInteraction = None\<rparr>
             (gameSessions st)\<rparr>)"

definition session_interact :: "int \<Rightarrow> jsval \<Rightarrow> state \<Rightarrow> response \<times> state" where
  "session_interact now token st =
     (case sessions_get (gameSessions st) token of
        None \<Rightarrow> (Interacted False, st)
      | Some session \<Rightarrow>
          if \<not> submitted session then
            (Interacted True,
             st\<lparr>gameSessions :=
                  sessions_put (gameSessions st) token
                    (session\<lparr>interactions := interactions session + 1,
                             lastInteraction := Some now\<rparr>)\<rparr>)
          else (Interacted False, st))"

subsection \<open>POST /scores\<close>

record request =
  req_name :: jsval
  req_cinema :: jsval
  req_email :: jsval
  req_time :: jsval
  req_token :: jsval
  req_sig :: jsval
  req_mobile :: jsval

text \<open>
  What the handler reads from its environment: the clock at the session check, the
  generated id and the ISO date of the new entry.
\<close>

record env =
  clock :: int
  new_id :: string
  iso_date :: string

text \<open>
  Lines 152 to 171: the session check. It returns \<open>validSession\<close> and the registry, in
  which a session that passed is marked submitted.
\<close>

definition session_check :: "int \<Rightarrow> jsval \<Rightarrow> jsnum \<Rightarrow> registry \<Rightarrow> bool \<times> registry" where
  "session_check now token sanitizedTime g =
     (if truthy token then
        (case sessions_get g token of
           None \<Rightarrow> (False, g)
         | Some session \<Rightarrow>
             if \<not> submitted session then
               (let sessionDuration = now - startTime session in
                if js_le sanitizedTime (sessionDuration + 2000) then
                  if interactions session \<ge> 3 then
                    (True, sessions_put g token (session\<lparr>submitted := True\<rparr>))
                  else (False, g)
                else (False, g))
             else (False, g))
      else (False, g))"

definition newScore :: "env \<Rightarrow> request \<Rightarrow> jsnum \<Rightarrow> bool \<Rightarrow> memory_score" where
  "newScore e req sanitizedTime validSession =
     \<lparr>sid = new_id e,
      name = take 50 (trim (to_string (req_name req))),
      cinema = take 100 (trim (to_string (req_cinema req))),
      email = (if truthy (req_email req)
               then Some (take 100 (trim (to_string (req_email req)))) else None),
      time = Some sanitizedTime,
      date = iso_date e,
      verified = validSession,
      mobile = (req_mobile req = JBool True)\<rparr>"

definition post_scores :: "env \<Rightarrow> request \<Rightarrow> state \<Rightarrow> response \<times> state" where
  "post_scores e req st =
     (if \<not> truthy (req_name req) \<or> \<not> truthy (req_cinema req) \<or> \<not> truthy (req_time req) then
        (Failure 400 ''Missing required fields: name, cinema, time'', st)
      else
        let sanitizedTime = parseInt (req_time req) in
        if js_lt sanitizedTime 3000 \<or> js_gt sanitizedTime 600000 then
          (Failure 400 ''Invalid time value'', st)
        else
          let (validSession, g) =
                session_check (clock e) (req_token req) sanitizedTime (gameSessions st)
          in
          case load_scores (scoresFile st) of
            Inl err \<Rightarrow> (Failure 500 ''Failed to save score'', st\<lparr>gameSessions := g\<rparr>)
          | Inr loaded \<Rightarrow>
              let new = newScore e req sanitizedTime validSession;
                  scores = take 500 (array_sort by_time (loaded @ [new]));
                  rank = findIndex (\<lambda>s. sid s = sid new) scores + 1;
                  g' = (if truthy (req_token req) then sessions_delete g (req_token req) else g)
              in (ScoreSaved rank (json_stringify new),
                  \<lparr>gameSessions = g', scoresFile = DocArray (map json_stringify scores)\<rparr>))"


section \<open>Notions used to state the properties\<close>

text \<open>
  A request passes field validation when the handler reaches the session check: the
  three required fields are truthy, and \<open>parseInt\<close> of the time is \<open>NaN\<close> or an integer
  from 3000 to 600000.
\<close>

definition passes_validation :: "request \<Rightarrow> bool" where
  "passes_validation req =
     (truthy (req_name req) \<and> truthy (req_cinema req) \<and> truthy (req_time req) \<and>
      (case parseInt (req_time req) of
         NaN \<Rightarrow> True
       | Num t \<Rightarrow> 3000 \<le> t \<and> t \<le> 600000))"

text \<open>
  A session passes the check of a submission that claims the time \<open>claimed\<close> at the
  clock reading \<open>now\<close>: it is not yet submitted, the claimed time is a number at most
  2000 ms above the age of the session, and it counts at least 3 interactions.
\<close>

definition session_passes :: "int \<Rightarrow> jsnum \<Rightarrow> session \<Rightarrow> bool" where
  "session_passes now claimed s =
     (\<not> submitted s \<and>
      (\<exists>t. claimed = Num t \<and> t \<le> now - startTime s + 2000) \<and>
      3 \<le> interactions s)"

text \<open>An entry in memory whose \<open>time\<close> is not \<open>NaN\<close>, and the number its \<open>time\<close> converts to.\<close>

definition numeric :: "memory_score \<Rightarrow> bool" where
  "numeric s = (time s \<noteq> Some NaN)"

definition time_key :: "memory_score \<Rightarrow> int" where
  "time_key s = (case to_number (time s) of Num n \<Rightarrow> n | NaN \<Rightarrow> 0)"

text \<open>
  The number that the comparator reads from an entry of the file (\<open>null\<close> reads as \<open>0\<close>),
  and a collection in ascending order of it.
\<close>

definition stored_key :: "stored_score \<Rightarrow> int" where
  "stored_key s = (case time s of None \<Rightarrow> 0 | Some n \<Rightarrow> n)"

definition ascending :: "stored_score list \<Rightarrow> bool" where
  "ascending ps = sorted (map stored_key ps)"

text \<open>An entry with its \<open>verified\<close> flag cleared, to compare entries up to that flag.\<close>

definition unflag :: "'t score \<Rightarrow> 't score" where
  "unflag s = s\<lparr>verified := False\<rparr>"

text \<open>
  A document that holds a score collection, and a document that holds a falsy JSON
  value (\<open>null\<close>, \<open>false\<close>, \<open>0\<close> or the empty string).
\<close>

fun falsy_json :: "document \<Rightarrow> bool" where
  "falsy_json DocNull = True"
| "falsy_json (DocBool b) = (\<not> b)"
| "falsy_json (DocNum n) = (n = 0)"
| "falsy_json (DocStr s) = (s = [])"
| "falsy_json _ = False"

fun score_collection :: "document \<Rightarrow> bool" where
  "score_collection (DocArray xs) = True"
| "score_collection _ = False"

text \<open>A session older than the 30 minutes of the sweep, at the clock reading \<open>now\<close>.\<close>

definition expired :: "int \<Rightarrow> session \<Rightarrow> bool" where
  "expired now s = (now - startTime s > 30 * 60 * 1000)"

text \<open>
  A sequence of submissions, each with its own environment, and the ranking invariant
  of the scores file.
\<close>

fun post_all :: "(env \<times> request) list \<Rightarrow> state \<Rightarrow> state" where
  "post_all [] st = st"
| "post_all ((e, req) # rest) st = post_all rest (snd (post_scores e req st))"

definition ranked :: "state \<Rightarrow> bool" where
  "ranked st = (\<exists>ps. scoresFile st = DocArray ps \<and> ascending ps \<and> length ps \<le> 500)"

text \<open>Sample inputs for the concrete instances below.\<close>

definition sample_request :: "jsval \<Rightarrow> jsval \<Rightarrow> jsval \<Rightarrow> request" where
  "sample_request t token m =
     \<lparr>req_name = JStr ''Ada'', req_cinema = JStr ''Lux'', req_email = JUndefined,
      req_time = t, req_token = token, req_sig = JUndefined, req_mobile = m\<rparr>"

definition sample_env :: "int \<Rightarrow> string \<Rightarrow> env" where
  "sample_env now i = \<lparr>clock = now, new_id = i, iso_date = ''2026-01-01T00:00:00.000Z''\<rparr>"

definition sample_session :: "int \<Rightarrow> int \<Rightarrow> session" where
  "sample_session start n =
     \<lparr>startTime = start, signature = ''5f'', interactions = n, submitted = False,
      lastInteraction = None\<rparr>"

text \<open>The entry that a sample request without token and \<open>mobile\<close> leaves in the file.\<close>

definition sample_stored :: "string \<Rightarrow> int option \<Rightarrow> stored_score" where
  "sample_stored i t =
     \<lparr>sid = i, name = ''Ada'', cinema = ''Lux'', email = None, time = t,
      date = ''2026-01-01T00:00:00.000Z'', verified = False, mobile = False\<rparr>"

section \<open>Sorting and the JSON round trip\<close>

lemma sort_compare_numeric:
  "numeric a \<Longrightarrow> numeric b \<Longrightarrow> sort_compare by_time a b = time_key a - time_key b"
  by (cases "time a"; cases "time b")
     (auto simp: numeric_def sort_compare_def by_time_def time_key_def
           elim!: js_minus.elims split: jsnum.splits)

lemma insert_sorted_insort_key:
  "numeric x \<Longrightarrow> \<forall>y\<in>set ys. numeric y \<Longrightarrow>
     insert_sorted by_time x ys = insort_key time_key x ys"
  by (induction ys) (simp_all add: sort_compare_numeric)

text \<open>On entries without \<open>NaN\<close> the sort is the stable sort by the time as a number.\<close>

lemma array_sort_sort_key:
  "\<forall>x\<in>set xs. numeric x \<Longrightarrow> array_sort by_time xs = sort_key time_key xs"
proof (induction xs)
  case Nil
  then show ?case by (simp add: array_sort_def)
next
  case (Cons x xs)
  then have "array_sort by_time xs = sort_key time_key xs" by simp
  moreover have "\<forall>y\<in>set (sort_key time_key xs). numeric y" using Cons.prems by simp
  ultimately show ?case
    using Cons.prems insert_sorted_insort_key [of x "sort_key time_key xs"]
    by (simp add: array_sort_def sort_key_def)
qed

lemma length_insert_sorted: "length (insert_sorted c x ys) = Suc (length ys)"
  by (induction ys) simp_all

lemma length_array_sort: "length (array_sort c xs) = length xs"
  by (induction xs) (simp_all add: array_sort_def length_insert_sorted)

lemma mset_insert_sorted: "mset (insert_sorted c x ys) = add_mset x (mset ys)"
  by (induction ys) simp_all

lemma mset_array_sort: "mset (array_sort c xs) = mset xs"
  by (induction xs) (simp_all add: array_sort_def mset_insert_sorted)

lemma numeric_json_parse: "numeric (json_parse s)"
  by (cases "time s") (simp_all add: numeric_def json_parse_def)

lemma time_key_json_parse: "time_key (json_parse s) = stored_key s"
  by (cases "time s") (simp_all add: time_key_def stored_key_def json_parse_def)

lemma stored_key_json_stringify: "stored_key (json_stringify m) = time_key m"
  by (cases "time m" rule: stringify_time.cases)
     (simp_all add: time_key_def stored_key_def json_stringify_def)

lemma json_stringify_parse: "json_stringify (json_parse s) = s"
  by (cases "time s") (simp_all add: json_stringify_def json_parse_def)

lemma findIndex_none: "\<forall>x\<in>set xs. \<not> p x \<Longrightarrow> findIndex p xs = - 1"
  by (induction xs) simp_all

lemma insort_key_before_last:
  "f a \<le> f x \<Longrightarrow> insort_key f a (ys @ [x]) = insort_key f a ys @ [x]"
  by (induction ys) simp_all

lemma sort_key_largest_last:
  "\<forall>y\<in>set xs. f y \<le> f x \<Longrightarrow> sort_key f (xs @ [x]) = sort_key f xs @ [x]"
proof (induction xs)
  case Nil
  then show ?case by simp
next
  case (Cons a xs)
  then have "sort_key f (xs @ [x]) = sort_key f xs @ [x]" by simp
  moreover have "f a \<le> f x" using Cons.prems by simp
  ultimately show ?case
    by (simp add: sort_key_def insort_key_before_last)
qed

lemma sid_json_parse: "sid (json_parse s) = sid s"
  by (simp add: json_parse_def)

lemma sid_json_stringify: "sid (json_stringify s) = sid s"
  by (simp add: json_stringify_def)

lemma ascending_json_stringify:
  "ascending (map json_stringify xs) = sorted (map time_key xs)"
  by (simp add: ascending_def comp_def stored_key_json_stringify)

section \<open>\<open>parseInt\<close> reads back the numeral of an integer\<close>

lemma below_ten: "(d::nat) < 10 \<Longrightarrow> d \<in> {0, 1, 2, 3, 4, 5, 6, 7, 8, 9}"
  by auto

lemma digit_val_digit_char: "d < 10 \<Longrightarrow> digit_val 10 (digit_char d) = Some d"
  using below_ten [of d] by (auto simp: digit_val_def digit_values_def digit_char_def)

lemma digit_char_plain:
  assumes "d < 10"
  shows "\<not> is_white_space (digit_char d)" and "digit_char d \<noteq> CHR ''+''"
    and "digit_char d \<noteq> CHR ''-''" and "digit_char d \<noteq> CHR ''x''"
    and "digit_char d \<noteq> CHR ''X''"
  using below_ten [OF assms] by (auto simp: is_white_space_def digit_char_def)

lemma digits_of_small: "n < 10 \<Longrightarrow> digits_of n = [digit_char n]"
  by (simp add: digits_of.simps)

lemma digits_of_large:
  "\<not> n < 10 \<Longrightarrow> digits_of n = digits_of (n div 10) @ [digit_char (n mod 10)]"
  by (subst digits_of.simps) simp

lemma digits_of_chars: "c \<in> set (digits_of n) \<Longrightarrow> \<exists>d<10. c = digit_char d"
proof (induction n rule: digits_of.induct)
  case (1 n)
  show ?case
  proof (cases "n < 10")
    case True
    with "1.prems" show ?thesis by (auto simp: digits_of_small)
  next
    case False
    with "1.prems" "1.IH" show ?thesis
      by (auto simp: digits_of_large intro: exI [of _ "n mod 10"])
  qed
qed

lemma digits_of_nonempty: "digits_of n \<noteq> []"
  by (cases "n < 10") (simp_all add: digits_of_small digits_of_large)

lemma digit_prefix_all_digits:
  "\<forall>c\<in>set s. digit_val R c \<noteq> None \<Longrightarrow>
     digit_prefix R (s @ rest) = map (\<lambda>c. the (digit_val R c)) s @ digit_prefix R rest"
  by (induction s) auto

lemma radix_value_digits_of:
  "radix_value 10 (map (\<lambda>c. the (digit_val 10 c)) (digits_of n)) = n"
proof (induction n rule: digits_of.induct)
  case (1 n)
  show ?case
  proof (cases "n < 10")
    case True
    then show ?thesis by (simp add: digits_of_small radix_value_def digit_val_digit_char)
  next
    case False
    with "1.IH" show ?thesis
      by (simp add: digits_of_large radix_value_def digit_val_digit_char)
  qed
qed

lemma digits_of_digit_val: "c \<in> set (digits_of n) \<Longrightarrow> digit_val 10 c \<noteq> None"
proof -
  assume "c \<in> set (digits_of n)"
  then obtain d where "d < 10" "c = digit_char d" using digits_of_chars by blast
  then show ?thesis by (simp add: digit_val_digit_char)
qed

lemma digits_of_no_x: "CHR ''x'' \<notin> set (digits_of n)" "CHR ''X'' \<notin> set (digits_of n)"
proof -
  show "CHR ''x'' \<notin> set (digits_of n)"
  proof
    assume "CHR ''x'' \<in> set (digits_of n)"
    then obtain d where "d < 10" "CHR ''x'' = digit_char d" using digits_of_chars by blast
    then show False using digit_char_plain(4) [of d] by simp
  qed
  show "CHR ''X'' \<notin> set (digits_of n)"
  proof
    assume "CHR ''X'' \<in> set (digits_of n)"
    then obtain d where "d < 10" "CHR ''X'' = digit_char d" using digits_of_chars by blast
    then show False using digit_char_plain(5) [of d] by simp
  qed
qed

lemma take_two_second: "take 2 s = [a, b] \<Longrightarrow> b \<in> set s"
proof -
  assume "take 2 s = [a, b]"
  then have "b \<in> set (take 2 s)" by simp
  then show ?thesis by (rule in_set_takeD)
qed

lemma digits_of_head:
  "\<exists>d cs. d < 10 \<and> digits_of n = digit_char d # cs"
proof -
  obtain c cs where s: "digits_of n = c # cs"
    using digits_of_nonempty [of n] by (cases "digits_of n") auto
  then have "c \<in> set (digits_of n)" by simp
  then obtain d where "d < 10" "c = digit_char d" using digits_of_chars by blast
  with s show ?thesis by blast
qed

lemma parse_digits_of:
  "digit_prefix 10 (digits_of n) \<noteq> [] \<and> radix_value 10 (digit_prefix 10 (digits_of n)) = n"
proof -
  have "\<forall>c\<in>set (digits_of n). digit_val 10 c \<noteq> None"
    using digits_of_digit_val by blast
  then have pre: "digit_prefix 10 (digits_of n) = map (\<lambda>c. the (digit_val 10 c)) (digits_of n)"
    using digit_prefix_all_digits [of "digits_of n" 10 "[]"] by simp
  then show ?thesis
    using digits_of_nonempty [of n] radix_value_digits_of [of n] by simp
qed

lemma parse_int_string_digits_of: "parse_int_string (digits_of n) = Num (int n)"
proof -
  obtain d cs where d: "d < 10" and s: "digits_of n = digit_char d # cs"
    using digits_of_head by blast
  have ws: "dropWhile is_white_space (digits_of n) = digits_of n"
    by (simp add: s digit_char_plain(1) [OF d])
  have sgn: "hd (digits_of n) \<noteq> CHR ''+''" "hd (digits_of n) \<noteq> CHR ''-''"
    by (simp_all add: s digit_char_plain(2,3) [OF d])
  have nohex: "take 2 (digits_of n) \<noteq> ''0x''" "take 2 (digits_of n) \<noteq> ''0X''"
    using take_two_second [of "digits_of n"] digits_of_no_x [of n] by blast+
  show ?thesis
    using parse_digits_of [of n] nohex sgn
    by (simp add: parse_int_string_def Let_def ws)
qed

lemma parse_int_string_minus_digits_of:
  "parse_int_string (CHR ''-'' # digits_of n) = Num (- int n)"
proof -
  have nws: "\<not> is_white_space CHR ''-''" by (simp add: is_white_space_def)
  have nohex: "take 2 (digits_of n) \<noteq> ''0x''" "take 2 (digits_of n) \<noteq> ''0X''"
    using take_two_second [of "digits_of n"] digits_of_no_x [of n] by blast+
  show ?thesis
    using parse_digits_of [of n] nohex nws
    by (simp add: parse_int_string_def Let_def)
qed

lemma the_integer_safe:
  "- (2 ^ 53) \<le> n \<Longrightarrow> n \<le> 2 ^ 53 \<Longrightarrow> the_integer (safe n) = n"
  by (simp add: the_integer.rep_eq safe.rep_eq)

lemma parseInt_JNum: "parseInt (JNum n) = Num (the_integer n)"
  by (simp add: parseInt_def number_to_string_def parse_int_string_digits_of
        parse_int_string_minus_digits_of)

section \<open>The three outcomes of POST /scores\<close>

lemma fst_session_check:
  "fst (session_check now token t g) \<longleftrightarrow>
     truthy token \<and>
     (\<exists>s. sessions_get g token = Some s \<and> \<not> submitted s \<and>
          js_le t (now - startTime s + 2000) \<and> interactions s \<ge> 3)"
  by (auto simp: session_check_def Let_def split: option.splits)

lemma session_check_passes:
  "fst (session_check now token t g) \<longleftrightarrow>
     truthy token \<and> (\<exists>s. sessions_get g token = Some s \<and> session_passes now t s)"
  by (cases t) (auto simp: fst_session_check session_passes_def)


lemma passes_validation_checks:
  "passes_validation req \<longleftrightarrow>
     \<not> (\<not> truthy (req_name req) \<or> \<not> truthy (req_cinema req) \<or> \<not> truthy (req_time req)) \<and>
     \<not> (js_lt (parseInt (req_time req)) 3000 \<or> js_gt (parseInt (req_time req)) 600000)"
  by (cases "parseInt (req_time req)") (auto simp: passes_validation_def)

lemma post_scores_rejected:
  assumes "\<not> passes_validation req"
  shows "\<exists>msg. post_scores e req st = (Failure 400 msg, st)"
  using assms by (auto simp: post_scores_def passes_validation_checks Let_def)

lemma post_scores_load_failure:
  assumes "passes_validation req" and "load_scores (scoresFile st) = Inl err"
  shows "post_scores e req st =
           (Failure 500 ''Failed to save score'',
            st\<lparr>gameSessions :=
                 snd (session_check (clock e) (req_token req) (parseInt (req_time req))
                        (gameSessions st))\<rparr>)"
  using assms by (simp add: post_scores_def passes_validation_checks Let_def split: prod.splits)

lemma post_scores_saved:
  assumes "passes_validation req" and "load_scores (scoresFile st) = Inr loaded"
  shows "post_scores e req st =
           (let t = parseInt (req_time req);
                c = session_check (clock e) (req_token req) t (gameSessions st);
                new = newScore e req t (fst c);
                scores = take 500 (array_sort by_time (loaded @ [new]))
            in (ScoreSaved (findIndex (\<lambda>s. sid s = sid new) scores + 1) (json_stringify new),
                \<lparr>gameSessions =
                   (if truthy (req_token req) then sessions_delete (snd c) (req_token req)
                    else snd c),
                 scoresFile = DocArray (map json_stringify scores)\<rparr>))"
  using assms by (simp add: post_scores_def passes_validation_checks Let_def split: prod.splits)

section \<open>The keys of the registry\<close>

lemma distinct_sessions_put:
  "distinct (map fst g) \<Longrightarrow> distinct (map fst (sessions_put g token s))"
  by (cases token) (simp_all add: sessions_put_def distinct_update)

lemma distinct_sessions_delete:
  "distinct (map fst g) \<Longrightarrow> distinct (map fst (sessions_delete g token))"
  by (cases token) (simp_all add: sessions_delete_def distinct_delete)

lemma distinct_session_check:
  "distinct (map fst g) \<Longrightarrow> distinct (map fst (snd (session_check now token t g)))"
  by (simp add: session_check_def Let_def distinct_sessions_put split: option.splits)

lemma distinct_sweep_loop:
  "distinct (map fst g) \<Longrightarrow> distinct (map fst (sweep_loop now rest g))"
  by (induction rest arbitrary: g) (auto simp: distinct_delete)

text \<open>Every operation keeps the keys of the registry distinct.\<close>

lemma registry_keys_distinct:
  assumes "distinct (map fst (gameSessions st))"
  shows "distinct (map fst (gameSessions (sweep now st)))"
    and "distinct (map fst (gameSessions (snd (get_scores st))))"
    and "distinct (map fst (gameSessions (snd (session_start token now sg st))))"
    and "distinct (map fst (gameSessions (snd (session_interact now tok st))))"
    and "distinct (map fst (gameSessions (snd (post_scores e req st))))"
proof -
  show "distinct (map fst (gameSessions (sweep now st)))"
    using assms by (simp add: sweep_def distinct_sweep_loop)
  show "distinct (map fst (gameSessions (snd (get_scores st))))"
    using assms by (simp add: get_scores_def split: sum.splits)
  show "distinct (map fst (gameSessions (snd (session_start token now sg st))))"
    using assms by (simp add: session_start_def distinct_update)
  show "distinct (map fst (gameSessions (snd (session_interact now tok st))))"
    using assms
    by (simp add: session_interact_def distinct_sessions_put split: option.splits)
  show "distinct (map fst (gameSessions (snd (post_scores e req st))))"
  proof (cases "passes_validation req")
    case False
    then show ?thesis using post_scores_rejected [OF False, of e st] assms by auto
  next
    case True
    show ?thesis
    proof (cases "load_scores (scoresFile st)")
      case (Inl err)
      then show ?thesis
        using assms by (simp add: post_scores_load_failure [OF True Inl] distinct_session_check)
    next
      case (Inr loaded)
      then show ?thesis
        using assms
        by (simp add: post_scores_saved [OF True Inr] Let_def distinct_session_check
              distinct_sessions_delete)
    qed
  qed
qed

section \<open>Properties of the session sweep\<close>

lemma sweep_loop_step:
  "sweep_loop now ((token, session) # rest) g =
     sweep_loop now rest (if expired now session then AList.delete token g else g)"
  by (simp add: expired_def)

lemma sweep_loop_filter:
  "sweep_loop now rest g =
     filter (\<lambda>(k, s). \<forall>(k', s')\<in>set rest. k' = k \<longrightarrow> \<not> expired now s') g"
proof (induction rest arbitrary: g)
  case Nil
  then show ?case by simp
next
  case (Cons entry rest)
  obtain token session where entry: "entry = (token, session)" by (cases entry)
  let ?P = "\<lambda>(k, s). \<forall>(k', s')\<in>set rest. k' = k \<longrightarrow> \<not> expired now s'"
  let ?Q = "\<lambda>(k, s). \<forall>(k', s')\<in>set ((token, session) # rest). k' = k \<longrightarrow> \<not> expired now s'"
  have step: "sweep_loop now (entry # rest) g =
      filter ?P (if expired now session then AList.delete token g else g)"
    unfolding entry sweep_loop_step by (rule Cons.IH)
  show ?case
  proof (cases "expired now session")
    case True
    have "filter ?P (AList.delete token g) = filter (\<lambda>x. token \<noteq> fst x \<and> ?P x) g"
      by (simp add: AList.delete_eq case_prod_unfold conj_commute)
    also have "\<dots> = filter ?Q g"
      using True by (intro filter_cong refl) (simp add: case_prod_unfold)
    finally show ?thesis using step True by (simp add: entry)
  next
    case False
    have "filter ?P g = filter ?Q g"
      using False by (intro filter_cong refl) (simp add: case_prod_unfold)
    then show ?thesis using step False by (simp add: entry)
  qed
qed

lemma sweep_filter:
  assumes "distinct (map fst (gameSessions st))"
  shows "gameSessions (sweep now st) =
           filter (\<lambda>(token, s). \<not> expired now s) (gameSessions st)"
proof -
  let ?g = "gameSessions st"
  have "(case x of (k, s) \<Rightarrow> \<forall>(k', s')\<in>set ?g. k' = k \<longrightarrow> \<not> expired now s')
          = (case x of (token, s) \<Rightarrow> \<not> expired now s)"
    if "x \<in> set ?g" for x
  proof -
    obtain k s where x: "x = (k, s)" by (cases x)
    have same: "s' = s" if "(k, s') \<in> set ?g" for s'
      using eq_key_imp_eq_value [OF assms that, of s] \<open>x \<in> set ?g\<close> x by simp
    have "(\<forall>(k', s')\<in>set ?g. k' = k \<longrightarrow> \<not> expired now s') \<longleftrightarrow> \<not> expired now s"
    proof
      assume "\<forall>(k', s')\<in>set ?g. k' = k \<longrightarrow> \<not> expired now s'"
      with \<open>x \<in> set ?g\<close> x show "\<not> expired now s" by blast
    next
      assume "\<not> expired now s"
      with same show "\<forall>(k', s')\<in>set ?g. k' = k \<longrightarrow> \<not> expired now s'" by blast
    qed
    then show ?thesis by (simp add: x)
  qed
  then have "filter (\<lambda>(k, s). \<forall>(k', s')\<in>set ?g. k' = k \<longrightarrow> \<not> expired now s') ?g
           = filter (\<lambda>(token, s). \<not> expired now s) ?g"
    by (intro filter_cong refl)
  then show ?thesis
    by (simp add: sweep_def sweep_loop_filter)
qed

text \<open>
  Claim C7. After a sweep (the map's keys being distinct, as in any \<open>Map\<close>), the registry
  holds exactly the sessions that are not older than 30 minutes, each unchanged and in
  the same order: a session older than 30 minutes is absent whatever its \<open>submitted\<close>
  flag, and a lookup of any other token gives what it gave before. The scores file is
  not touched.
\<close>

theorem sweep_removes_the_expired:
  assumes "distinct (map fst (gameSessions st))"
  shows "gameSessions (sweep now st) =
           filter (\<lambda>(token, s). \<not> expired now s) (gameSessions st) \<and>
         scoresFile (sweep now st) = scoresFile st \<and>
         (\<forall>token. sessions_get (gameSessions (sweep now st)) (JStr token) =
            (case sessions_get (gameSessions st) (JStr token) of
               None \<Rightarrow> None
             | Some s \<Rightarrow> if expired now s then None else Some s))"
proof (intro conjI allI)
  let ?g = "gameSessions st"
  let ?kept = "filter (\<lambda>(token, s). \<not> expired now s) ?g"
  show flt: "gameSessions (sweep now st) = ?kept"
    using assms by (rule sweep_filter)
  show "scoresFile (sweep now st) = scoresFile st" by (simp add: sweep_def)
  fix token
  have d: "distinct (map fst ?kept)"
    using assms by (rule distinct_map_filter)
  have "map_of ?kept token =
          (case map_of ?g token of None \<Rightarrow> None
           | Some s \<Rightarrow> if expired now s then None else Some s)"
  proof (cases "map_of ?g token")
    case None
    then have "token \<notin> fst ` set ?g" by (simp add: map_of_eq_None_iff)
    then have "token \<notin> fst ` set ?kept" by auto
    then have "map_of ?kept token = None" by (simp add: map_of_eq_None_iff)
    with None show ?thesis by simp
  next
    case (Some s)
    then have mem: "(token, s) \<in> set ?g" by (rule map_of_SomeD)
    show ?thesis
    proof (cases "expired now s")
      case True
      have "token \<notin> fst ` set ?kept"
      proof
        assume "token \<in> fst ` set ?kept"
        then obtain s' where "(token, s') \<in> set ?g" "\<not> expired now s'"
          by auto
        with mem eq_key_imp_eq_value [OF assms, of token s' s] have "s' = s" by simp
        with True \<open>\<not> expired now s'\<close> show False by simp
      qed
      then have "map_of ?kept token = None" by (simp add: map_of_eq_None_iff)
      with Some True show ?thesis by simp
    next
      case False
      with mem have "(token, s) \<in> set ?kept" by simp
      then have "map_of ?kept token = Some s"
        using d by (rule map_of_is_SomeI [rotated])
      with Some False show ?thesis by simp
    qed
  qed
  then show "sessions_get (gameSessions (sweep now st)) (JStr token) =
            (case sessions_get ?g (JStr token) of
               None \<Rightarrow> None
             | Some s \<Rightarrow> if expired now s then None else Some s)"
    by (simp add: sessions_get_def flt)
qed

theorem sweep_removes_the_expired_witness:
  "distinct (map fst (gameSessions
      \<lparr>gameSessions = [(''t1'', sample_session 0 0), (''t2'', sample_session 1000000 0)],
       scoresFile = DocArray []\<rparr>)) \<and>
   expired 2000000 (sample_session 0 0) \<and> \<not> expired 2000000 (sample_session 1000000 0) \<and>
   gameSessions (sweep 2000000
      \<lparr>gameSessions = [(''t1'', sample_session 0 0), (''t2'', sample_session 1000000 0)],
       scoresFile = DocArray []\<rparr>) = [(''t2'', sample_session 1000000 0)]"
proof -
  let ?st = "\<lparr>gameSessions = [(''t1'', sample_session 0 0), (''t2'', sample_session 1000000 0)],
       scoresFile = DocArray []\<rparr>"
  have h: "distinct (map fst (gameSessions ?st))" by simp
  have e: "expired 2000000 (sample_session 0 0)" "\<not> expired 2000000 (sample_session 1000000 0)"
    by (simp_all add: expired_def sample_session_def)
  show ?thesis
    using sweep_removes_the_expired [OF h, of 2000000] h e
    by simp
qed

section \<open>Properties of the listing\<close>

lemma get_scores_array:
  "scoresFile st = DocArray xs \<Longrightarrow>
     get_scores st =
       (ScoresListed (map json_stringify (take 50 (array_sort by_time (map json_parse xs)))), st)"
  by (simp add: get_scores_def)

lemma get_scores_not_array:
  "\<not> score_collection (scoresFile st) \<Longrightarrow>
     get_scores st =
       (if falsy_json (scoresFile st) then ScoresListed []
        else Failure 500 ''Failed to load scores'', st)"
  by (cases "scoresFile st") (simp_all add: get_scores_def array_sort_def)

text \<open>
  Claim C6, as amended. For a scores file that is unreadable, is not JSON, or holds a
  truthy JSON value that is not an array (\<open>true\<close>, a non-zero number, a non-empty
  string, an object), the listing fails with the storage error. For a file that holds a
  falsy JSON value (\<open>null\<close>, \<open>false\<close>, \<open>0\<close>, the empty string) the \<open>|| []\<close> fallback
  makes the listing succeed with an empty list, as it does for the empty array; a
  successful empty list is returned in no other case.
\<close>

theorem corrupt_file_listing:
  "(\<not> score_collection (scoresFile st) \<longrightarrow>
      get_scores st =
        (if falsy_json (scoresFile st) then ScoresListed []
         else Failure 500 ''Failed to load scores'', st)) \<and>
   (fst (get_scores st) = ScoresListed [] \<longleftrightarrow>
      scoresFile st = DocArray [] \<or> falsy_json (scoresFile st))"
proof (intro conjI impI)
  assume "\<not> score_collection (scoresFile st)"
  then show "get_scores st =
        (if falsy_json (scoresFile st) then ScoresListed []
         else Failure 500 ''Failed to load scores'', st)"
    by (rule get_scores_not_array)
next
  show "fst (get_scores st) = ScoresListed [] \<longleftrightarrow>
      scoresFile st = DocArray [] \<or> falsy_json (scoresFile st)"
  proof (cases "score_collection (scoresFile st)")
    case True
    then obtain xs where xs: "scoresFile st = DocArray xs"
      by (cases "scoresFile st") simp_all
    have "length (map json_stringify (take 50 (array_sort by_time (map json_parse xs))))
            = min (length xs) 50"
      by (simp add: length_array_sort)
    then have "map json_stringify (take 50 (array_sort by_time (map json_parse xs))) = []
                 \<longleftrightarrow> xs = []"
      by (metis length_0_conv min_less_iff_conj not_gr_zero zero_less_numeral)
    then show ?thesis
      by (simp add: get_scores_array [OF xs] xs)
  next
    case False
    then show ?thesis
      by (cases "scoresFile st") (simp_all add: get_scores_not_array)
  qed
qed

theorem corrupt_file_listing_witness:
  "\<not> score_collection (scoresFile \<lparr>gameSessions = [], scoresFile = DocObject\<rparr>) \<and>
   get_scores \<lparr>gameSessions = [], scoresFile = DocObject\<rparr>
     = (Failure 500 ''Failed to load scores'', \<lparr>gameSessions = [], scoresFile = DocObject\<rparr>) \<and>
   fst (get_scores \<lparr>gameSessions = [], scoresFile = DocObject\<rparr>) \<noteq> ScoresListed []"
  using corrupt_file_listing [of "\<lparr>gameSessions = [], scoresFile = DocObject\<rparr>"]
  by simp

text \<open>
  Claim C6 as first stated fails on a file holding \<open>null\<close>: it is not a score
  collection, and the listing succeeds with an empty list.
\<close>

theorem null_file_lists_empty:
  "\<not> score_collection DocNull \<and>
   get_scores \<lparr>gameSessions = [], scoresFile = DocNull\<rparr>
     = (ScoresListed [], \<lparr>gameSessions = [], scoresFile = DocNull\<rparr>)"
  by (simp add: get_scores_def array_sort_def)

lemma ascending_sorted_take:
  assumes "\<forall>x\<in>set xs. numeric x"
  shows "ascending (map json_stringify (take n (array_sort by_time xs)))"
proof -
  have "sorted (map time_key (sort_key time_key xs))" by (rule sorted_sort_key)
  then have "sorted (take n (map time_key (sort_key time_key xs)))" by (rule sorted_wrt_take)
  then show ?thesis
    by (simp add: ascending_json_stringify array_sort_sort_key [OF assms] take_map)
qed

text \<open>
  Claim C8. The listing leaves the state (the scores file and the registry) as it was,
  so a second listing with no insertion in between returns what the first returned;
  a successful listing has at most 50 entries, in ascending order of time.
\<close>

theorem listing_read_only_and_repeatable:
  "snd (get_scores st) = st \<and>
   get_scores (snd (get_scores st)) = get_scores st \<and>
   (\<forall>scores. fst (get_scores st) = ScoresListed scores \<longrightarrow>
      length scores \<le> 50 \<and> ascending scores)"
proof -
  have same: "snd (get_scores st) = st"
    by (simp add: get_scores_def split: sum.splits)
  have "length scores \<le> 50 \<and> ascending scores"
    if "fst (get_scores st) = ScoresListed scores" for scores
  proof (cases "load_scores (scoresFile st)")
    case (Inl err)
    with that show ?thesis by (simp add: get_scores_def)
  next
    case (Inr loaded)
    then have "\<forall>x\<in>set loaded. numeric x"
      by (cases "scoresFile st") (auto simp: numeric_json_parse split: if_splits)
    then have "ascending (map json_stringify (take 50 (array_sort by_time loaded)))"
      by (rule ascending_sorted_take)
    with that Inr show ?thesis by (auto simp: get_scores_def)
  qed
  with same show ?thesis by simp
qed

theorem listing_read_only_and_repeatable_witness:
  "get_scores \<lparr>gameSessions = [],
      scoresFile = DocArray [sample_stored ''id1'' (Some 5000), sample_stored ''id2'' (Some 4000)]\<rparr>
     = (ScoresListed [sample_stored ''id2'' (Some 4000), sample_stored ''id1'' (Some 5000)],
        \<lparr>gameSessions = [],
         scoresFile = DocArray [sample_stored ''id1'' (Some 5000), sample_stored ''id2'' (Some 4000)]\<rparr>) \<and>
   get_scores (snd (get_scores \<lparr>gameSessions = [],
      scoresFile = DocArray [sample_stored ''id1'' (Some 5000), sample_stored ''id2'' (Some 4000)]\<rparr>))
     = get_scores \<lparr>gameSessions = [],
      scoresFile = DocArray [sample_stored ''id1'' (Some 5000), sample_stored ''id2'' (Some 4000)]\<rparr> \<and>
   ascending [sample_stored ''id2'' (Some 4000), sample_stored ''id1'' (Some 5000)]"
proof -
  let ?st = "\<lparr>gameSessions = [],
      scoresFile = DocArray [sample_stored ''id1'' (Some 5000), sample_stored ''id2'' (Some 4000)]\<rparr>"
  have run: "get_scores ?st
     = (ScoresListed [sample_stored ''id2'' (Some 4000), sample_stored ''id1'' (Some 5000)], ?st)"
    by (simp add: get_scores_def array_sort_def sort_compare_def by_time_def json_parse_def
          json_stringify_def sample_stored_def)
  then have "fst (get_scores ?st)
     = ScoresListed [sample_stored ''id2'' (Some 4000), sample_stored ''id1'' (Some 5000)]"
    by simp
  with listing_read_only_and_repeatable [of ?st] run show ?thesis by blast
qed

section \<open>Properties of the submission\<close>

lemma sample_request_passes:
  "3000 \<le> n \<Longrightarrow> n \<le> 600000 \<Longrightarrow>
     passes_validation (sample_request (JNum (safe n)) token m)"
  by (simp add: passes_validation_def sample_request_def parseInt_JNum the_integer_safe)

lemma parseInt_abc: "parseInt (JStr ''abc'') = NaN"
  by (simp add: parseInt_def parse_int_string_def is_white_space_def digit_val_def
        digit_values_def)

lemma sample_request_abc_passes:
  "passes_validation (sample_request (JStr ''abc'') token m)"
  by (simp add: passes_validation_def sample_request_def parseInt_abc)

text \<open>
  Claim C2. For every request that passes field validation (the scores file being
  loadable, so that an entry is stored at all), the \<open>verified\<close> flag of the stored entry
  is true exactly when the token is truthy, the registry holds a session for it that is
  not yet submitted, the claimed time is a number \<open>t\<close> with
  \<open>t \<le> (now - startTime) + 2000\<close>, and the session counts at least 3 interactions; in
  every other case it is false. The entry \<open>new\<close> is the one appended to the loaded
  collection before sorting and cutting, and the one returned; its time is the claimed
  time.
\<close>

theorem verified_iff_session_valid:
  assumes "passes_validation req" and "load_scores (scoresFile st) = Inr loaded"
  shows "\<exists>rank new st'.
           post_scores e req st = (ScoreSaved rank (json_stringify new), st') \<and>
           scoresFile st' =
             DocArray (map json_stringify (take 500 (array_sort by_time (loaded @ [new])))) \<and>
           time new = Some (parseInt (req_time req)) \<and>
           (verified (json_stringify new) \<longleftrightarrow>
              truthy (req_token req) \<and>
              (\<exists>s t. sessions_get (gameSessions st) (req_token req) = Some s \<and>
                     \<not> submitted s \<and>
                     parseInt (req_time req) = Num t \<and>
                     t \<le> clock e - startTime s + 2000 \<and>
                     3 \<le> interactions s))"
proof -
  define new where
    "new = newScore e req (parseInt (req_time req))
             (fst (session_check (clock e) (req_token req) (parseInt (req_time req))
                (gameSessions st)))"
  obtain rank st' where run: "post_scores e req st = (ScoreSaved rank (json_stringify new), st')"
    and saved: "scoresFile st' =
      DocArray (map json_stringify (take 500 (array_sort by_time (loaded @ [new]))))"
    using post_scores_saved [OF assms, of e] by (simp add: Let_def new_def)
  have tm: "time new = Some (parseInt (req_time req))"
    by (simp add: new_def newScore_def)
  have "verified (json_stringify new) \<longleftrightarrow>
          fst (session_check (clock e) (req_token req) (parseInt (req_time req))
                (gameSessions st))"
    by (simp add: new_def json_stringify_def newScore_def)
  then have v: "verified (json_stringify new) \<longleftrightarrow>
              truthy (req_token req) \<and>
              (\<exists>s t. sessions_get (gameSessions st) (req_token req) = Some s \<and>
                     \<not> submitted s \<and>
                     parseInt (req_time req) = Num t \<and>
                     t \<le> clock e - startTime s + 2000 \<and>
                     3 \<le> interactions s)"
    unfolding session_check_passes session_passes_def by blast
  show ?thesis
    by (intro exI conjI) (rule run, rule saved, rule tm, rule v)
qed

text \<open>
  The spec's cases: a session aged 10000 ms with 5 interactions verifies a claim of
  9500 ms and not one of 13000 ms; with 2 interactions it does not verify 9500 ms; a
  time that is not a number is never verified.
\<close>

theorem verified_iff_session_valid_witness:
  "(\<exists>rank new st'.
      post_scores (sample_env 10000 ''id1'')
          (sample_request (JNum (safe 9500)) (JStr ''t1'') JUndefined)
          \<lparr>gameSessions = [(''t1'', sample_session 0 5)], scoresFile = DocArray []\<rparr>
        = (ScoreSaved rank (json_stringify new), st') \<and> verified (json_stringify new)) \<and>
   (\<exists>rank new st'.
      post_scores (sample_env 10000 ''id1'')
          (sample_request (JNum (safe 13000)) (JStr ''t1'') JUndefined)
          \<lparr>gameSessions = [(''t1'', sample_session 0 5)], scoresFile = DocArray []\<rparr>
        = (ScoreSaved rank (json_stringify new), st') \<and> \<not> verified (json_stringify new)) \<and>
   (\<exists>rank new st'.
      post_scores (sample_env 10000 ''id1'')
          (sample_request (JNum (safe 9500)) (JStr ''t1'') JUndefined)
          \<lparr>gameSessions = [(''t1'', sample_session 0 2)], scoresFile = DocArray []\<rparr>
        = (ScoreSaved rank (json_stringify new), st') \<and> \<not> verified (json_stringify new)) \<and>
   (\<exists>rank new st'.
      post_scores (sample_env 10000 ''id1'')
          (sample_request (JStr ''abc'') (JStr ''t1'') JUndefined)
          \<lparr>gameSessions = [(''t1'', sample_session 0 5)], scoresFile = DocArray []\<rparr>
        = (ScoreSaved rank (json_stringify new), st') \<and> \<not> verified (json_stringify new))"
proof -
  let ?e = "sample_env 10000 ''id1''"
  let ?ok = "sample_request (JNum (safe 9500)) (JStr ''t1'') JUndefined"
  let ?late = "sample_request (JNum (safe 13000)) (JStr ''t1'') JUndefined"
  let ?nan = "sample_request (JStr ''abc'') (JStr ''t1'') JUndefined"
  let ?s5 = "\<lparr>gameSessions = [(''t1'', sample_session 0 5)], scoresFile = DocArray []\<rparr>"
  let ?s2 = "\<lparr>gameSessions = [(''t1'', sample_session 0 2)], scoresFile = DocArray []\<rparr>"
  have p_ok: "passes_validation ?ok" and p_late: "passes_validation ?late"
    by (simp_all add: sample_request_passes)
  have p_nan: "passes_validation ?nan" by (rule sample_request_abc_passes)
  have l5: "load_scores (scoresFile ?s5) = Inr []" and l2: "load_scores (scoresFile ?s2) = Inr []"
    by simp_all
  have t_ok: "parseInt (req_time ?ok) = Num 9500" and t_late: "parseInt (req_time ?late) = Num 13000"
    by (simp_all add: sample_request_def parseInt_JNum the_integer_safe)
  have t_nan: "parseInt (req_time ?nan) = NaN"
    by (simp add: sample_request_def parseInt_abc)
  have g5: "sessions_get (gameSessions ?s5) (JStr ''t1'') = Some (sample_session 0 5)"
    and g2: "sessions_get (gameSessions ?s2) (JStr ''t1'') = Some (sample_session 0 2)"
    by (simp_all add: sessions_get_def)
  have tok: "req_token (sample_request t (JStr ''t1'') m) = JStr ''t1''" for t m
    by (simp add: sample_request_def)
  have c1: "\<exists>rank new st'. post_scores ?e ?ok ?s5 = (ScoreSaved rank (json_stringify new), st')
      \<and> verified (json_stringify new)"
    using verified_iff_session_valid [OF p_ok l5, of ?e] t_ok g5
    by (auto simp: tok sample_session_def sample_env_def)
  have c2: "\<exists>rank new st'. post_scores ?e ?late ?s5 = (ScoreSaved rank (json_stringify new), st')
      \<and> \<not> verified (json_stringify new)"
    using verified_iff_session_valid [OF p_late l5, of ?e] t_late g5
    by (auto simp: tok sample_session_def sample_env_def)
  have c3: "\<exists>rank new st'. post_scores ?e ?ok ?s2 = (ScoreSaved rank (json_stringify new), st')
      \<and> \<not> verified (json_stringify new)"
    using verified_iff_session_valid [OF p_ok l2, of ?e] t_ok g2
    by (auto simp: tok sample_session_def sample_env_def)
  have c4: "\<exists>rank new st'. post_scores ?e ?nan ?s5 = (ScoreSaved rank (json_stringify new), st')
      \<and> \<not> verified (json_stringify new)"
    using verified_iff_session_valid [OF p_nan l5, of ?e] t_nan g5
    by (auto simp: tok sample_session_def sample_env_def)
  from c1 c2 c3 c4 show ?thesis by (intro conjI)
qed

text \<open>
  Claim C10. For every request that is stored, the \<open>mobile\<close> flag of the entry is true
  exactly when the \<open>mobile\<close> field of the body is the boolean \<open>true\<close>; the string
  \<open>"true"\<close>, a number, \<open>null\<close> or an absent field give \<open>false\<close>.
\<close>

theorem mobile_iff_boolean_true:
  assumes "passes_validation req" and "load_scores (scoresFile st) = Inr loaded"
  shows "\<exists>rank new st'.
           post_scores e req st = (ScoreSaved rank (json_stringify new), st') \<and>
           scoresFile st' =
             DocArray (map json_stringify (take 500 (array_sort by_time (loaded @ [new])))) \<and>
           (mobile (json_stringify new) \<longleftrightarrow> req_mobile req = JBool True)"
proof -
  define new where
    "new = newScore e req (parseInt (req_time req))
             (fst (session_check (clock e) (req_token req) (parseInt (req_time req))
                (gameSessions st)))"
  obtain rank st' where run: "post_scores e req st = (ScoreSaved rank (json_stringify new), st')"
    and saved: "scoresFile st' =
      DocArray (map json_stringify (take 500 (array_sort by_time (loaded @ [new]))))"
    using post_scores_saved [OF assms, of e] by (simp add: Let_def new_def)
  have "mobile (json_stringify new) \<longleftrightarrow> req_mobile req = JBool True"
    by (simp add: new_def json_stringify_def newScore_def)
  with run saved show ?thesis by blast
qed

theorem mobile_iff_boolean_true_witness:
  "passes_validation (sample_request (JNum (safe 9500)) JUndefined (JStr ''true'')) \<and>
   load_scores (scoresFile \<lparr>gameSessions = [], scoresFile = DocArray []\<rparr>) = Inr [] \<and>
   (\<exists>rank new st'.
      post_scores (sample_env 10000 ''id1'') (sample_request (JNum (safe 9500)) JUndefined (JStr ''true''))
        \<lparr>gameSessions = [], scoresFile = DocArray []\<rparr>
        = (ScoreSaved rank (json_stringify new), st') \<and> \<not> mobile (json_stringify new))"
proof -
  let ?req = "sample_request (JNum (safe 9500)) JUndefined (JStr ''true'')"
  let ?st = "\<lparr>gameSessions = [], scoresFile = DocArray []\<rparr> :: state"
  have h1: "passes_validation ?req" by (simp add: sample_request_passes)
  have h2: "load_scores (scoresFile ?st) = Inr []" by simp
  have h3: "req_mobile ?req \<noteq> JBool True" by (simp add: sample_request_def)
  show ?thesis
    using mobile_iff_boolean_true [OF h1 h2, of "sample_env 10000 ''id1''"] h1 h2 h3
    by auto
qed

subsection \<open>The anti-cheat check only sets a flag\<close>

lemma by_time_unflag: "by_time (unflag a) (unflag b) = by_time a b"
  by (simp add: by_time_def unflag_def)

lemma insert_sorted_unflag:
  "insert_sorted by_time (unflag x) (map unflag ys) = map unflag (insert_sorted by_time x ys)"
  by (induction ys) (simp_all add: sort_compare_def by_time_unflag)

lemma array_sort_unflag:
  "array_sort by_time (map unflag xs) = map unflag (array_sort by_time xs)"
  by (induction xs) (simp_all add: array_sort_def insert_sorted_unflag)

lemma findIndex_map:
  assumes "\<And>x. p (f x) = p x"
  shows "findIndex p (map f xs) = findIndex p xs"
  by (induction xs) (simp_all add: assms)

lemma unflag_newScore: "unflag (newScore e req t v) = newScore e req t False"
  by (simp add: unflag_def newScore_def)

lemma passes_validation_token_irrelevant:
  "passes_validation (req\<lparr>req_token := token, req_sig := sg\<rparr>) = passes_validation req"
  by (simp add: passes_validation_def)

lemma take_array_sort_unflag:
  "map unflag (take n (array_sort by_time xs)) = take n (array_sort by_time (map unflag xs))"
  by (simp only: take_map array_sort_unflag)

lemma rank_unflag:
  "findIndex (\<lambda>s. sid s = i) (take 500 (array_sort by_time (loaded @ [newScore e req t v])))
   = findIndex (\<lambda>s. sid s = i)
       (take 500 (array_sort by_time (map unflag loaded @ [newScore e req t False])))"
proof -
  have "findIndex (\<lambda>s. sid s = i) (take 500 (array_sort by_time (loaded @ [newScore e req t v])))
        = findIndex (\<lambda>s. sid s = i)
            (map unflag (take 500 (array_sort by_time (loaded @ [newScore e req t v]))))"
    by (rule findIndex_map [symmetric]) (simp add: unflag_def)
  also have "\<dots> = findIndex (\<lambda>s. sid s = i)
       (take 500 (array_sort by_time (map unflag (loaded @ [newScore e req t v]))))"
    by (simp only: take_array_sort_unflag)
  finally show ?thesis by (simp add: unflag_newScore)
qed

text \<open>
  Claim C5. For every request that passes field validation (the scores file being
  loadable), the session check never rejects the submission: the entry is appended to
  the loaded collection, which is sorted, cut and saved, and the result is a success.
  The same request sent with any other token and signature, against any other
  registry, succeeds with the same rank, and its entry and its saved collection differ
  from the first at most in the \<open>verified\<close> flag of the new entry.
\<close>

theorem anti_cheat_never_rejects:
  assumes "passes_validation req" and "load_scores (scoresFile st) = Inr loaded"
  shows "\<exists>rank new new2 st' st2'.
           post_scores e req st = (ScoreSaved rank (json_stringify new), st') \<and>
           scoresFile st' =
             DocArray (map json_stringify (take 500 (array_sort by_time (loaded @ [new])))) \<and>
           post_scores e (req\<lparr>req_token := token2, req_sig := sig2\<rparr>)
               (st\<lparr>gameSessions := g2\<rparr>)
             = (ScoreSaved rank (json_stringify new2), st2') \<and>
           scoresFile st2' =
             DocArray (map json_stringify (take 500 (array_sort by_time (loaded @ [new2])))) \<and>
           unflag new = unflag new2 \<and>
           map unflag (take 500 (array_sort by_time (loaded @ [new])))
             = map unflag (take 500 (array_sort by_time (loaded @ [new2])))"
proof -
  let ?t = "parseInt (req_time req)"
  let ?req2 = "req\<lparr>req_token := token2, req_sig := sig2\<rparr>"
  let ?st2 = "st\<lparr>gameSessions := g2\<rparr>"
  define v where "v = fst (session_check (clock e) (req_token req) ?t (gameSessions st))"
  define v2 where "v2 = fst (session_check (clock e) token2 ?t g2)"
  have p2: "passes_validation ?req2"
    using assms(1) by (simp add: passes_validation_token_irrelevant)
  have l2: "load_scores (scoresFile ?st2) = Inr loaded"
    using assms(2) by simp
  obtain st' where run: "post_scores e req st =
      (ScoreSaved (findIndex (\<lambda>s. sid s = new_id e)
         (take 500 (array_sort by_time (loaded @ [newScore e req ?t v]))) + 1)
         (json_stringify (newScore e req ?t v)), st')"
    and saved: "scoresFile st' = DocArray (map json_stringify
         (take 500 (array_sort by_time (loaded @ [newScore e req ?t v]))))"
    using post_scores_saved [OF assms, of e] by (simp add: Let_def v_def newScore_def)
  obtain st2' where run2: "post_scores e ?req2 ?st2 =
      (ScoreSaved (findIndex (\<lambda>s. sid s = new_id e)
         (take 500 (array_sort by_time (loaded @ [newScore e req ?t v2]))) + 1)
         (json_stringify (newScore e req ?t v2)), st2')"
    and saved2: "scoresFile st2' = DocArray (map json_stringify
         (take 500 (array_sort by_time (loaded @ [newScore e req ?t v2]))))"
    using post_scores_saved [OF p2 l2, of e] by (simp add: Let_def v2_def newScore_def)
  have rank: "findIndex (\<lambda>s. sid s = new_id e)
         (take 500 (array_sort by_time (loaded @ [newScore e req ?t v])))
       = findIndex (\<lambda>s. sid s = new_id e)
         (take 500 (array_sort by_time (loaded @ [newScore e req ?t v2])))"
    by (simp only: rank_unflag [of _ loaded e req ?t v] rank_unflag [of _ loaded e req ?t v2])
  have same: "map unflag (take 500 (array_sort by_time (loaded @ [newScore e req ?t v])))
       = map unflag (take 500 (array_sort by_time (loaded @ [newScore e req ?t v2])))"
    by (simp only: take_array_sort_unflag map_append list.map unflag_newScore)
  have new: "unflag (newScore e req ?t v) = unflag (newScore e req ?t v2)"
    by (simp only: unflag_newScore)
  note run2' = run2 [folded rank]
  show ?thesis
    by (intro exI conjI) (rule run, rule saved, rule run2', rule saved2, rule new, rule same)
qed

theorem anti_cheat_never_rejects_witness:
  "passes_validation (sample_request (JNum (safe 9500)) (JStr ''t1'') JUndefined) \<and>
   load_scores (scoresFile \<lparr>gameSessions = [(''t1'', sample_session 0 5)],
                             scoresFile = DocArray []\<rparr>) = Inr [] \<and>
   (\<exists>rank new new2 st' st2'.
      post_scores (sample_env 10000 ''id1'')
          (sample_request (JNum (safe 9500)) (JStr ''t1'') JUndefined)
          \<lparr>gameSessions = [(''t1'', sample_session 0 5)], scoresFile = DocArray []\<rparr>
        = (ScoreSaved rank (json_stringify new), st') \<and>
      post_scores (sample_env 10000 ''id1'')
          ((sample_request (JNum (safe 9500)) (JStr ''t1'') JUndefined)
             \<lparr>req_token := JUndefined, req_sig := JUndefined\<rparr>)
          (\<lparr>gameSessions = [(''t1'', sample_session 0 5)], scoresFile = DocArray []\<rparr>
             \<lparr>gameSessions := []\<rparr>)
        = (ScoreSaved rank (json_stringify new2), st2') \<and>
      unflag new = unflag new2)"
proof -
  let ?req = "sample_request (JNum (safe 9500)) (JStr ''t1'') JUndefined"
  let ?st = "\<lparr>gameSessions = [(''t1'', sample_session 0 5)], scoresFile = DocArray []\<rparr>"
  have h1: "passes_validation ?req" by (simp add: sample_request_passes)
  have h2: "load_scores (scoresFile ?st) = Inr []" by simp
  show ?thesis
    using anti_cheat_never_rejects [OF h1 h2, of "sample_env 10000 ''id1''" JUndefined JUndefined "[]"]
      h1 h2
    by blast
qed

subsection \<open>Eviction of the slowest entry\<close>

text \<open>
  Claim C4. When the file already holds 500 entries and a request that passes
  validation brings a time strictly larger than every stored time (a stored \<open>null\<close>
  reading as \<open>0\<close>, as the comparator reads it), with an id that no stored entry has,
  then the returned rank is \<open>0\<close> (\<open>findIndex\<close> gives \<open>-1\<close>), the new entry is not in the
  saved collection, and the saved collection holds exactly the 500 old entries, in
  ascending order.
\<close>

theorem slowest_entry_evicted:
  assumes "passes_validation req" and "parseInt (req_time req) = Num t"
    and "scoresFile st = DocArray old" and "length old = 500"
    and "\<forall>s\<in>set old. stored_key s < t"
    and "new_id e \<notin> sid ` set old"
  shows "\<exists>new st' ps.
           post_scores e req st = (ScoreSaved 0 (json_stringify new), st') \<and>
           sid new = new_id e \<and> time new = Some (Num t) \<and>
           scoresFile st' = DocArray ps \<and>
           json_stringify new \<notin> set ps \<and> new_id e \<notin> sid ` set ps \<and>
           mset ps = mset old \<and> ascending ps"
proof -
  define loaded where "loaded = map json_parse old"
  define new where
    "new = newScore e req (Num t)
             (fst (session_check (clock e) (req_token req) (Num t) (gameSessions st)))"
  define ps where "ps = map json_stringify (sort_key time_key loaded)"
  have load: "load_scores (scoresFile st) = Inr loaded"
    using assms(3) by (simp add: loaded_def)
  have new_id: "sid new = new_id e" and new_time: "time new = Some (Num t)"
    by (simp_all add: new_def newScore_def)
  have new_numeric: "numeric new" and new_key: "time_key new = t"
    by (simp_all add: numeric_def time_key_def new_time)
  have loaded_numeric: "\<forall>x\<in>set loaded. numeric x"
    by (simp add: loaded_def numeric_json_parse)
  have loaded_keys: "\<forall>x\<in>set loaded. time_key x \<le> time_key new"
    using assms(5) by (auto simp: loaded_def time_key_json_parse new_key)
  have "array_sort by_time (loaded @ [new]) = sort_key time_key (loaded @ [new])"
    using loaded_numeric new_numeric by (intro array_sort_sort_key) simp
  also have "\<dots> = sort_key time_key loaded @ [new]"
    using loaded_keys by (rule sort_key_largest_last)
  finally have "take 500 (array_sort by_time (loaded @ [new])) = sort_key time_key loaded"
    using assms(4) by (simp add: loaded_def)
  then have scores: "map json_stringify (take 500 (array_sort by_time (loaded @ [new]))) = ps"
    and idx: "findIndex (\<lambda>s. sid s = sid new) (take 500 (array_sort by_time (loaded @ [new])))
              = findIndex (\<lambda>s. sid s = sid new) (sort_key time_key loaded)"
    by (simp_all add: ps_def)
  have "mset ps = image_mset json_stringify (image_mset json_parse (mset old))"
    by (simp add: ps_def loaded_def)
  then have ms: "mset ps = mset old"
    by (simp add: image_mset.compositionality comp_def json_stringify_parse)
  then have "set ps = set old" by (rule mset_eq_setD)
  with assms(6) have fresh: "new_id e \<notin> sid ` set ps" by simp
  then have absent: "json_stringify new \<notin> set ps"
    using new_id sid_json_stringify [of new] by force
  have "\<forall>x\<in>set (sort_key time_key loaded). sid x \<noteq> sid new"
    using assms(6) by (force simp: loaded_def sid_json_parse new_id)
  then have "findIndex (\<lambda>s. sid s = sid new) (sort_key time_key loaded) = - 1"
    by (intro findIndex_none) simp
  with idx have rank: "findIndex (\<lambda>s. sid s = sid new)
      (take 500 (array_sort by_time (loaded @ [new]))) + 1 = 0"
    by simp
  have asc: "ascending ps"
    by (simp add: ps_def ascending_json_stringify)
  obtain st' where run: "post_scores e req st = (ScoreSaved 0 (json_stringify new), st')"
    and saved: "scoresFile st' = DocArray ps"
    using post_scores_saved [OF assms(1) load, of e] assms(2) rank scores
    by (simp add: Let_def new_def)
  show ?thesis
    by (intro exI conjI) (rule run, rule new_id, rule new_time, rule saved, rule absent,
        rule fresh, rule ms, rule asc)
qed

theorem slowest_entry_evicted_witness:
  "passes_validation (sample_request (JNum (safe 5000)) JUndefined JUndefined) \<and>
   length (replicate 500 (sample_stored ''id0'' (Some 4000))) = 500 \<and>
   (\<exists>new st' ps.
      post_scores (sample_env 10000 ''id1'') (sample_request (JNum (safe 5000)) JUndefined JUndefined)
          \<lparr>gameSessions = [],
           scoresFile = DocArray (replicate 500 (sample_stored ''id0'' (Some 4000)))\<rparr>
        = (ScoreSaved 0 (json_stringify new), st') \<and>
      time new = Some (Num 5000) \<and>
      scoresFile st' = DocArray ps \<and> json_stringify new \<notin> set ps \<and>
      mset ps = mset (replicate 500 (sample_stored ''id0'' (Some 4000))))"
proof -
  let ?req = "sample_request (JNum (safe 5000)) JUndefined JUndefined"
  let ?old = "replicate 500 (sample_stored ''id0'' (Some 4000))"
  let ?st = "\<lparr>gameSessions = [], scoresFile = DocArray ?old\<rparr>"
  have h1: "passes_validation ?req" by (simp add: sample_request_passes)
  have h2: "parseInt (req_time ?req) = Num 5000" by (simp add: sample_request_def parseInt_JNum the_integer_safe)
  have h3: "scoresFile ?st = DocArray ?old" by simp
  have h4: "length ?old = 500" by simp
  have h5: "\<forall>s\<in>set ?old. stored_key s < 5000" by (simp add: sample_stored_def stored_key_def)
  have h6: "new_id (sample_env 10000 ''id1'') \<notin> sid ` set ?old"
    by (simp add: sample_env_def sample_stored_def)
  show ?thesis
    using slowest_entry_evicted [OF h1 h2 h3 h4 h5 h6] h1 h4 by blast
qed

subsection \<open>The token after a submission\<close>








section \<open>A time that is not a number\<close>

lemma trim_samples: "trim ''Ada'' = ''Ada''" "trim ''Lux'' = ''Lux''"
  by (simp_all add: trim_def is_white_space_def)

text \<open>
  Claim C3, at the input \<open>{name: "Ada", cinema: "Lux", time: "abc"}\<close>: \<open>parseInt\<close> gives
  \<open>NaN\<close>, neither \<open>NaN < 3000\<close> nor \<open>NaN > 600000\<close> holds, and the submission is stored
  (with \<open>time\<close> written as \<open>null\<close>) and answered with rank 1 instead of being refused.
\<close>

theorem nan_time_is_stored:
  "parseInt (JStr ''abc'') = NaN \<and>
   post_scores (sample_env 10000 ''id1'') (sample_request (JStr ''abc'') JUndefined JUndefined)
       \<lparr>gameSessions = [], scoresFile = DocArray []\<rparr>
     = (ScoreSaved 1 (sample_stored ''id1'' None),
        \<lparr>gameSessions = [], scoresFile = DocArray [sample_stored ''id1'' None]\<rparr>)"
proof -
  let ?req = "sample_request (JStr ''abc'') JUndefined JUndefined"
  let ?st = "\<lparr>gameSessions = [], scoresFile = DocArray []\<rparr> :: state"
  have h1: "passes_validation ?req" by (rule sample_request_abc_passes)
  have h2: "load_scores (scoresFile ?st) = Inr []" by simp
  have t: "parseInt (req_time ?req) = NaN" by (simp add: sample_request_def parseInt_abc)
  have c: "session_check 10000 JUndefined NaN [] = (False, [])"
    by (simp add: session_check_def)
  have "post_scores (sample_env 10000 ''id1'') ?req ?st
     = (ScoreSaved 1 (sample_stored ''id1'' None),
        \<lparr>gameSessions = [], scoresFile = DocArray [sample_stored ''id1'' None]\<rparr>)"
    unfolding post_scores_saved [OF h1 h2] t
    by (simp add: Let_def c array_sort_def sample_env_def sample_request_def newScore_def
          json_stringify_def sample_stored_def trim_samples)
  then show ?thesis using parseInt_abc by simp
qed

theorem nan_time_is_stored_witness:
  "fst (post_scores (sample_env 10000 ''id1'')
          (sample_request (JStr ''abc'') JUndefined JUndefined)
          \<lparr>gameSessions = [], scoresFile = DocArray []\<rparr>)
     \<noteq> Failure 400 ''Invalid time value'' \<and>
   scoresFile (snd (post_scores (sample_env 10000 ''id1'')
          (sample_request (JStr ''abc'') JUndefined JUndefined)
          \<lparr>gameSessions = [], scoresFile = DocArray []\<rparr>))
     \<noteq> DocArray []"
  using nan_time_is_stored by simp

text \<open>For a \<open>time\<close> that is missing or parses to an integer, the bound is enforced.\<close>

lemma missing_field_rejected:
  assumes "\<not> truthy (req_name req) \<or> \<not> truthy (req_cinema req) \<or> \<not> truthy (req_time req)"
  shows "post_scores e req st = (Failure 400 ''Missing required fields: name, cinema, time'', st)"
  using assms by (auto simp: post_scores_def)

lemma time_bound_enforced_for_integers:
  assumes "truthy (req_name req)" and "truthy (req_cinema req)" and "truthy (req_time req)"
    and "parseInt (req_time req) = Num t" and "t < 3000 \<or> 600000 < t"
  shows "post_scores e req st = (Failure 400 ''Invalid time value'', st)"
  using assms by (auto simp: post_scores_def Let_def)

lemma integer_time_bound:
  assumes "truthy (req_name req)" and "truthy (req_cinema req)" and "the_integer n \<noteq> 0"
    and "req_time req = JNum n" and "the_integer n < 3000 \<or> 600000 < the_integer n"
  shows "post_scores e req st = (Failure 400 ''Invalid time value'', st)"
  using assms time_bound_enforced_for_integers [of req "the_integer n" e st]
  by (simp add: parseInt_JNum)

text \<open>
  A no-break space in front of the numeral is skipped like any white space, so the
  bound applies to the number behind it.
\<close>

lemma parseInt_no_break_space:
  "parseInt (JStr (CHR 0xA0 # ''2000'')) = Num 2000"
  "parseInt (JStr (CHR 0xA0 # ''5000'')) = Num 5000"
  by (simp_all add: parseInt_def parse_int_string_def is_white_space_def digit_val_def
        digit_values_def radix_value_def)

lemma no_break_space_time_refused:
  "post_scores e (sample_request (JStr (CHR 0xA0 # ''2000'')) token m) st
     = (Failure 400 ''Invalid time value'', st)"
  by (rule time_bound_enforced_for_integers [of _ 2000])
     (simp_all add: sample_request_def parseInt_no_break_space)

text \<open>
  One insertion of a time that parses to an integer, into any array: the saved
  collection is ascending, has at most 500 entries, and keeps the lowest times (every
  entry kept is at most as slow as every entry dropped).
\<close>

lemma ranking_invariant_for_integers:
  assumes "passes_validation req" and "parseInt (req_time req) = Num t"
    and "scoresFile st = DocArray old"
  shows "\<exists>rank new st' kept dropped.
           post_scores e req st = (ScoreSaved rank new, st') \<and> time new = Some t \<and>
           scoresFile st' = DocArray kept \<and> ascending kept \<and> length kept \<le> 500 \<and>
           mset kept + mset dropped = add_mset new (mset old) \<and>
           (\<forall>a\<in>set kept. \<forall>b\<in>set dropped. stored_key a \<le> stored_key b)"
proof -
  define loaded where "loaded = map json_parse old"
  define new where
    "new = newScore e req (Num t)
             (fst (session_check (clock e) (req_token req) (Num t) (gameSessions st)))"
  define sorted_all where "sorted_all = sort_key time_key (loaded @ [new])"
  define kept where "kept = map json_stringify (take 500 sorted_all)"
  define dropped where "dropped = map json_stringify (drop 500 sorted_all)"
  have load: "load_scores (scoresFile st) = Inr loaded"
    using assms(3) by (simp add: loaded_def)
  have new_time: "time (json_stringify new) = Some t"
    by (simp add: new_def newScore_def json_stringify_def)
  have "numeric new" by (simp add: numeric_def new_def newScore_def)
  then have "\<forall>x\<in>set (loaded @ [new]). numeric x"
    by (simp add: loaded_def numeric_json_parse)
  then have srt: "array_sort by_time (loaded @ [new]) = sorted_all"
    unfolding sorted_all_def by (rule array_sort_sort_key)
  obtain rank st' where run: "post_scores e req st = (ScoreSaved rank (json_stringify new), st')"
    and saved: "scoresFile st' = DocArray kept"
    using post_scores_saved [OF assms(1) load, of e] assms(2) srt
    by (simp add: Let_def new_def kept_def)
  have s: "sorted (map time_key sorted_all)"
    unfolding sorted_all_def by (rule sorted_sort_key)
  then have "sorted (take 500 (map time_key sorted_all))" by (rule sorted_wrt_take)
  then have asc: "ascending kept"
    by (simp add: kept_def ascending_json_stringify take_map)
  have len: "length kept \<le> 500" by (simp add: kept_def)
  have "mset kept + mset dropped = mset (map json_stringify (take 500 sorted_all @ drop 500 sorted_all))"
    by (simp only: kept_def dropped_def map_append mset_append)
  also have "\<dots> = image_mset json_stringify (mset (loaded @ [new]))"
    by (simp add: sorted_all_def)
  also have "\<dots> = add_mset (json_stringify new) (mset old)"
    by (simp add: loaded_def image_mset.compositionality comp_def json_stringify_parse)
  finally have ms: "mset kept + mset dropped = add_mset (json_stringify new) (mset old)" .
  have "sorted (map time_key (take 500 sorted_all) @ map time_key (drop 500 sorted_all))"
    using s by (simp flip: map_append)
  then have "\<forall>x\<in>set (map time_key (take 500 sorted_all)).
               \<forall>y\<in>set (map time_key (drop 500 sorted_all)). x \<le> y"
    by (simp only: sorted_append) simp
  then have ord: "\<forall>a\<in>set kept. \<forall>b\<in>set dropped. stored_key a \<le> stored_key b"
    by (auto simp: kept_def dropped_def stored_key_json_stringify)
  show ?thesis
    by (intro exI conjI) (rule run, rule new_time, rule saved, rule asc, rule len, rule ms, rule ord)
qed

lemma ranked_post_scores:
  assumes "ranked st" and "parseInt (req_time req) \<noteq> NaN"
  shows "ranked (snd (post_scores e req st))"
proof (cases "passes_validation req")
  case False
  then show ?thesis using post_scores_rejected [OF False, of e st] assms(1) by auto
next
  case True
  obtain old where old: "scoresFile st = DocArray old"
    using assms(1) by (auto simp: ranked_def)
  obtain t where t: "parseInt (req_time req) = Num t"
    using assms(2) by (cases "parseInt (req_time req)") simp_all
  show ?thesis
    using ranking_invariant_for_integers [OF True t old, of e]
    by (auto simp: ranked_def)
qed

text \<open>
  The ranking invariant along any sequence of submissions whose \<open>time\<close> fields parse to
  integers (or are rejected), from the empty file on.
\<close>

lemma ranked_post_all:
  assumes "ranked st" and "\<forall>(e, req)\<in>set ops. parseInt (req_time req) \<noteq> NaN"
  shows "ranked (post_all ops st)"
  using assms
proof (induction ops arbitrary: st)
  case Nil
  then show ?case by simp
next
  case (Cons op ops)
  obtain e req where op: "op = (e, req)" by (cases op)
  have "ranked (snd (post_scores e req st))"
    using Cons.prems op by (intro ranked_post_scores) auto
  then show ?case
    using Cons.IH Cons.prems(2) by (simp add: op)
qed

lemma ranked_empty: "ranked \<lparr>gameSessions = g, scoresFile = DocArray []\<rparr>"
  by (simp add: ranked_def ascending_def)

lemma ranking_invariant_from_empty:
  assumes "\<forall>(e, req)\<in>set ops. parseInt (req_time req) \<noteq> NaN"
  shows "ranked (post_all ops \<lparr>gameSessions = g, scoresFile = DocArray []\<rparr>)"
  using ranked_empty assms by (rule ranked_post_all)

text \<open>
  Claim C1, at the inputs \<open>{time: 5000}\<close> then \<open>{time: "abc"}\<close> on an empty file: both
  insertions succeed. In the second, the comparator returns \<open>NaN\<close> for the pair, which
  counts as equal, so the stable sort keeps the order; the file then holds the times
  \<open>5000, null\<close>, which is not ascending (the comparator reads \<open>null\<close> as \<open>0\<close>, and the
  listing would return the two entries in the other order).
\<close>

theorem nan_time_breaks_order:
  "post_scores (sample_env 10000 ''id1'') (sample_request (JNum (safe 5000)) JUndefined JUndefined)
       \<lparr>gameSessions = [], scoresFile = DocArray []\<rparr>
     = (ScoreSaved 1 (sample_stored ''id1'' (Some 5000)),
        \<lparr>gameSessions = [], scoresFile = DocArray [sample_stored ''id1'' (Some 5000)]\<rparr>) \<and>
   post_scores (sample_env 20000 ''id2'') (sample_request (JStr ''abc'') JUndefined JUndefined)
       \<lparr>gameSessions = [], scoresFile = DocArray [sample_stored ''id1'' (Some 5000)]\<rparr>
     = (ScoreSaved 2 (sample_stored ''id2'' None),
        \<lparr>gameSessions = [],
         scoresFile = DocArray [sample_stored ''id1'' (Some 5000), sample_stored ''id2'' None]\<rparr>) \<and>
   \<not> ascending [sample_stored ''id1'' (Some 5000), sample_stored ''id2'' None]"
proof -
  let ?r1 = "sample_request (JNum (safe 5000)) JUndefined JUndefined"
  let ?r2 = "sample_request (JStr ''abc'') JUndefined JUndefined"
  let ?s0 = "\<lparr>gameSessions = [], scoresFile = DocArray []\<rparr> :: state"
  let ?s1 = "\<lparr>gameSessions = [], scoresFile = DocArray [sample_stored ''id1'' (Some 5000)]\<rparr>"
  have p1: "passes_validation ?r1" by (simp add: sample_request_passes)
  have p2: "passes_validation ?r2" by (rule sample_request_abc_passes)
  have l0: "load_scores (scoresFile ?s0) = Inr []" by simp
  have l1: "load_scores (scoresFile ?s1) = Inr [json_parse (sample_stored ''id1'' (Some 5000))]"
    by simp
  have t1: "parseInt (req_time ?r1) = Num 5000" by (simp add: sample_request_def parseInt_JNum the_integer_safe)
  have t2: "parseInt (req_time ?r2) = NaN" by (simp add: sample_request_def parseInt_abc)
  have c: "session_check now JUndefined t [] = (False, [])" for now t
    by (simp add: session_check_def)
  have first: "post_scores (sample_env 10000 ''id1'') ?r1 ?s0
     = (ScoreSaved 1 (sample_stored ''id1'' (Some 5000)), ?s1)"
    unfolding post_scores_saved [OF p1 l0] t1
    by (simp add: Let_def c array_sort_def sample_env_def sample_request_def newScore_def
          json_stringify_def sample_stored_def trim_samples)
  have second: "post_scores (sample_env 20000 ''id2'') ?r2 ?s1
     = (ScoreSaved 2 (sample_stored ''id2'' None),
        \<lparr>gameSessions = [],
         scoresFile = DocArray [sample_stored ''id1'' (Some 5000), sample_stored ''id2'' None]\<rparr>)"
    unfolding post_scores_saved [OF p2 l1] t2
    by (simp add: Let_def c array_sort_def sample_env_def sample_request_def newScore_def
          json_stringify_def json_parse_def sample_stored_def trim_samples sort_compare_def
          by_time_def)
  have "\<not> ascending [sample_stored ''id1'' (Some 5000), sample_stored ''id2'' None]"
    by (simp add: ascending_def stored_key_def sample_stored_def)
  with first second show ?thesis by simp
qed

theorem nan_time_breaks_order_witness:
  "\<not> ranked (snd (post_scores (sample_env 20000 ''id2'')
       (sample_request (JStr ''abc'') JUndefined JUndefined)
       (snd (post_scores (sample_env 10000 ''id1'')
          (sample_request (JNum (safe 5000)) JUndefined JUndefined)
          \<lparr>gameSessions = [], scoresFile = DocArray []\<rparr>))))"
  using nan_time_breaks_order by (simp add: ranked_def)

end
